theory Spec2Isabelle
  imports Complex_Main
begin

section \<open>The game state of \<open>src/index.tsx\<close>\<close>

text \<open>
  The game logic of the \<open>App\<close> component: the constants, the food placer
  \<open>getRandomPosition\<close>, the key handler \<open>handleKeyDown\<close>, the tick callback
  \<open>moveSnake\<close>, \<open>startGame\<close> and the two high-score effects. React state
  (\<open>useState\<close>) and refs (\<open>useRef\<close>) are the fields of one record that every
  handler takes and returns. Cells and directions are the two-element number arrays
  \<open>[x, z]\<close> of the source; all values that occur are integers.
\<close>

type_synonym cell = "int \<times> int"
type_synonym Direction = "int \<times> int"

definition GRID_SIZE :: int where
  "GRID_SIZE = 21"

text \<open>\<open>(GRID_SIZE - 1) / 2\<close>; the division is exact, \<open>GRID_SIZE\<close> being odd.\<close>

definition BOUNDARY :: int where
  "BOUNDARY = (GRID_SIZE - 1) div 2"

datatype speedName = SLOW | MEDIUM | FAST

fun SPEEDS :: "speedName \<Rightarrow> int" where
  "SPEEDS SLOW = 200"
| "SPEEDS MEDIUM = 120"
| "SPEEDS FAST = 70"

datatype ViewMode = THIRD_PERSON | FIRST_PERSON

datatype GameState = MENU | PLAYING | GAME_OVER

text \<open>
  \<open>random\<close> is the sequence of results of \<open>Math.random()\<close>, in the order of the
  calls, and \<open>drawn\<close> counts the calls made so far. \<open>localStorage\<close> is the item
  \<open>snake_highscore\<close>: \<open>None\<close> when it is absent, and otherwise the integer whose
  decimal text it holds (the only writer is \<open>score.toString()\<close>, which
  \<open>parseInt(saved, 10)\<close> reads back).
\<close>

record game =
  gameState :: GameState
  speed :: int
  score :: int
  highScore :: int
  viewMode :: ViewMode
  snake :: "cell list"
  food :: cell
  direction :: Direction
  directionRef :: Direction
  moveQueue :: "Direction list"
  localStorage :: "int option"
  random :: "nat \<Rightarrow> real"
  drawn :: nat

text \<open>
  What a callback can do besides returning: read \<open>prevSnake[0][0]\<close> of an empty
  snake, which throws a \<open>TypeError\<close>, or stay in the unbounded loop of
  \<open>getRandomPosition\<close> for ever.
\<close>

datatype error = TypeError | NonTermination

subsection \<open>Food placement\<close>

text \<open>\<open>Math.floor(Math.random() * GRID_SIZE) - BOUNDARY\<close>, for one result of \<open>Math.random()\<close>.\<close>

definition randomCoordinate :: "real \<Rightarrow> int" where
  "randomCoordinate r = \<lfloor>r * of_int GRID_SIZE\<rfloor> - BOUNDARY"

text \<open>
  The \<open>while (isOnSnake)\<close> loop. Each iteration makes two calls of
  \<open>Math.random()\<close>, numbers \<open>k\<close> and \<open>k + 1\<close>. The result is the position and the
  number of calls made; \<open>None\<close> is the loop that never exits.
\<close>

partial_function (option) getRandomPosition ::
  "(nat \<Rightarrow> real) \<Rightarrow> nat \<Rightarrow> cell list \<Rightarrow> (cell \<times> nat) option" where
  "getRandomPosition rnd k snakeCells =
     (let x = randomCoordinate (rnd k);
          z = randomCoordinate (rnd (k + 1));
          position = (x, z);
          isOnSnake = list_ex (\<lambda>(sx, sz). sx = x \<and> sz = z) snakeCells
      in if isOnSnake then getRandomPosition rnd (k + 2) snakeCells
         else Some (position, k + 2))"

declare getRandomPosition.simps [code]

text \<open>The cell that the iteration starting at call \<open>k\<close> samples.\<close>

definition sampledCell :: "(nat \<Rightarrow> real) \<Rightarrow> nat \<Rightarrow> cell" where
  "sampledCell rnd k = (randomCoordinate (rnd k), randomCoordinate (rnd (k + 1)))"

subsection \<open>Input handling\<close>

text \<open>
  \<open>e.key.toLowerCase()\<close> on the ASCII letters; every other character is kept (no
  character outside ASCII lowers to one of the keys the handler tests).
\<close>

definition toLowerCaseChar :: "char \<Rightarrow> char" where
  "toLowerCaseChar c =
     (case map_of (zip ''ABCDEFGHIJKLMNOPQRSTUVWXYZ'' ''abcdefghijklmnopqrstuvwxyz'') c of
        None \<Rightarrow> c
      | Some lower \<Rightarrow> lower)"

definition toLowerCase :: "string \<Rightarrow> string" where
  "toLowerCase s = map toLowerCaseChar s"

definition handleKeyDown :: "string \<Rightarrow> game \<Rightarrow> game" where
  "handleKeyDown eKey g =
     (if gameState g \<noteq> PLAYING then g
      else
        let key = toLowerCase eKey;
            newDir0 = None;
            newDir1 = (if key = ''w'' \<or> key = ''arrowup'' then Some (0, - 1) else newDir0);
            newDir2 = (if key = ''s'' \<or> key = ''arrowdown'' then Some (0, 1) else newDir1);
            newDir3 = (if key = ''a'' \<or> key = ''arrowleft'' then Some (- 1, 0) else newDir2);
            newDir = (if key = ''d'' \<or> key = ''arrowright'' then Some (1, 0) else newDir3)
        in if key = '' '' then
             g\<lparr>viewMode := (if viewMode g = THIRD_PERSON then FIRST_PERSON else THIRD_PERSON)\<rparr>
           else
             (case newDir of
                None \<Rightarrow> g
              | Some nd \<Rightarrow>
                  let currentDir = (if length (moveQueue g) > 0 then last (moveQueue g)
                                    else directionRef g)
                  in if fst currentDir \<noteq> - fst nd \<or> snd currentDir \<noteq> - snd nd
                     then g\<lparr>moveQueue := moveQueue g @ [nd]\<rparr>
                     else g))"

subsection \<open>The tick\<close>

text \<open>The first step of \<open>moveSnake\<close>: take the next move from the queue, or keep the current one.\<close>

definition nextMove :: "game \<Rightarrow> game" where
  "nextMove g =
     (case moveQueue g of
        [] \<Rightarrow> g
      | d # rest \<Rightarrow> g\<lparr>directionRef := d, direction := d, moveQueue := rest\<rparr>)"

definition addDir :: "cell \<Rightarrow> Direction \<Rightarrow> cell" where
  "addDir head currentDir = (fst head + fst currentDir, snd head + snd currentDir)"

definition wallCollision :: "cell \<Rightarrow> bool" where
  "wallCollision newHead \<longleftrightarrow>
     fst newHead < - BOUNDARY \<or> fst newHead > BOUNDARY \<or>
     snd newHead < - BOUNDARY \<or> snd newHead > BOUNDARY"

text \<open>The loop \<open>for (i = 0; i < prevSnake.length - 1; i++)\<close>: the last element is not compared.\<close>

fun selfCollision :: "cell \<Rightarrow> cell list \<Rightarrow> bool" where
  "selfCollision newHead [] = False"
| "selfCollision newHead [tailTip] = False"
| "selfCollision newHead (c # cs) =
     (if fst newHead = fst c \<and> snd newHead = snd c then True else selfCollision newHead cs)"

definition moveSnake :: "game \<Rightarrow> error + game" where
  "moveSnake g0 =
     (let g = nextMove g0;
          currentDir = directionRef g;
          prevSnake = snake g
      in case prevSnake of
           [] \<Rightarrow> Inl TypeError
         | head # _ \<Rightarrow>
             let newHead = addDir head currentDir in
             if wallCollision newHead then Inr (g\<lparr>gameState := GAME_OVER\<rparr>)
             else if selfCollision newHead prevSnake then Inr (g\<lparr>gameState := GAME_OVER\<rparr>)
             else
               let newSnake = newHead # prevSnake in
               if fst newHead = fst (food g) \<and> snd newHead = snd (food g) then
                 (case getRandomPosition (random g) (drawn g) newSnake of
                    None \<Rightarrow> Inl NonTermination
                  | Some (position, k) \<Rightarrow>
                      Inr (g\<lparr>score := score g + 10, food := position, drawn := k,
                             snake := newSnake\<rparr>))
               else Inr (g\<lparr>snake := butlast newSnake\<rparr>))"

subsection \<open>Starting a game, high score, events\<close>

definition startGame :: "int \<Rightarrow> game \<Rightarrow> error + game" where
  "startGame selectedSpeed g =
     (case getRandomPosition (random g) (drawn g) [(0, 0), (0, - 1), (0, - 2)] of
        None \<Rightarrow> Inl NonTermination
      | Some (position, k) \<Rightarrow>
          Inr (g\<lparr>speed := selectedSpeed,
                 snake := [(0, 0), (0, - 1), (0, - 2)],
                 direction := (0, 1),
                 directionRef := (0, 1),
                 moveQueue := [],
                 score := 0,
                 food := position,
                 drawn := k,
                 gameState := PLAYING,
                 viewMode := THIRD_PERSON\<rparr>))"

text \<open>The effect on \<open>[score, highScore]\<close>.\<close>

definition updateHighScore :: "game \<Rightarrow> game" where
  "updateHighScore g =
     (if score g > highScore g
      then g\<lparr>highScore := score g, localStorage := Some (score g)\<rparr>
      else g)"

text \<open>The effect that runs once after mounting.\<close>

definition loadHighScore :: "game \<Rightarrow> game" where
  "loadHighScore g = (case localStorage g of None \<Rightarrow> g | Some saved \<Rightarrow> g\<lparr>highScore := saved\<rparr>)"

text \<open>The initial values of \<open>useState\<close> and \<open>useRef\<close>, and the mounted component.\<close>

definition initialState :: "int option \<Rightarrow> (nat \<Rightarrow> real) \<Rightarrow> game" where
  "initialState stored rnd =
     \<lparr>gameState = MENU, speed = SPEEDS MEDIUM, score = 0, highScore = 0,
      viewMode = THIRD_PERSON, snake = [(0, 2), (0, 1), (0, 0)], food = (0, 5),
      direction = (0, 1), directionRef = (0, 1), moveQueue = [],
      localStorage = stored, random = rnd, drawn = 0\<rparr>"

definition App :: "int option \<Rightarrow> (nat \<Rightarrow> real) \<Rightarrow> game" where
  "App stored rnd = updateHighScore (loadHighScore (initialState stored rnd))"

text \<open>
  What happens to the component: a key press, a tick of the interval (which exists only
  while PLAYING), a click on a speed button (rendered only in MENU) and a click on MAIN
  MENU (rendered only in GAME_OVER). A callback runs to its end before the next event:
  the tick reads the food and the snake of the latest render (the interval is set up
  again whenever the food changes), and the high-score effect has run when the next
  event arrives.
\<close>

datatype event = KeyDown string | Tick | ClickStart speedName | ClickMainMenu

fun step :: "game \<Rightarrow> event \<Rightarrow> error + game" where
  "step g (KeyDown eKey) = Inr (handleKeyDown eKey g)"
| "step g Tick =
     (if gameState g = PLAYING
      then (case moveSnake g of Inl e \<Rightarrow> Inl e | Inr g' \<Rightarrow> Inr (updateHighScore g'))
      else Inr g)"
| "step g (ClickStart s) =
     (if gameState g = MENU
      then (case startGame (SPEEDS s) g of Inl e \<Rightarrow> Inl e | Inr g' \<Rightarrow> Inr (updateHighScore g'))
      else Inr g)"
| "step g ClickMainMenu =
     (if gameState g = GAME_OVER then Inr (g\<lparr>gameState := MENU\<rparr>) else Inr g)"

text \<open>The states the component passes through; the list ends where a callback does not return.\<close>

fun trace :: "game \<Rightarrow> event list \<Rightarrow> game list" where
  "trace g [] = [g]"
| "trace g (e # es) = g # (case step g e of Inl _ \<Rightarrow> [] | Inr g' \<Rightarrow> trace g' es)"


text \<open>
  The directions in effect at the ticks that run during a sequence of events: the value
  of \<open>currentDir\<close> in each call of \<open>moveSnake\<close>, in order.
\<close>

fun inEffect :: "game \<Rightarrow> event list \<Rightarrow> Direction list" where
  "inEffect g [] = []"
| "inEffect g (e # es) =
     (if e = Tick \<and> gameState g = PLAYING then [directionRef (nextMove g)] else []) @
     (case step g e of Inl _ \<Rightarrow> [] | Inr g' \<Rightarrow> inEffect g' es)"

subsection \<open>Predicates of the properties\<close>

text \<open>No direction of the list is the component-wise negation of the one before it.\<close>

fun noReversal :: "Direction list \<Rightarrow> bool" where
  "noReversal [] = True"
| "noReversal [d] = True"
| "noReversal (d # d' # ds) = (d' \<noteq> (- fst d, - snd d) \<and> noReversal (d' # ds))"

text \<open>The four unit vectors that the key handler produces.\<close>

definition isDirection :: "Direction \<Rightarrow> bool" where
  "isDirection d \<longleftrightarrow> d = (0, - 1) \<or> d = (0, 1) \<or> d = (- 1, 0) \<or> d = (1, 0)"

fun isKeyOrTick :: "event \<Rightarrow> bool" where
  "isKeyOrTick (KeyDown eKey) = True"
| "isKeyOrTick Tick = True"
| "isKeyOrTick (ClickStart s) = False"
| "isKeyOrTick ClickMainMenu = False"

text \<open>
  A sequence of results of \<open>Math.random()\<close> for the examples: the first placement
  samples the cell \<open>(0, 1)\<close>, every later one the cell \<open>(6, 6)\<close>.
\<close>

definition scriptedRandom :: "nat \<Rightarrow> real" where
  "scriptedRandom i = (if i = 0 then 1 / 2 else if i = 1 then 11 / 20 else 4 / 5)"

text \<open>The new head that a tick computes in a state with a snake.\<close>

definition newHeadOf :: "game \<Rightarrow> cell" where
  "newHeadOf g = addDir (hd (snake g)) (directionRef (nextMove g))"

text \<open>The snake has a head and no two equal cells, and the food is not on it.\<close>

definition snakeInv :: "game \<Rightarrow> bool" where
  "snakeInv g \<longleftrightarrow> snake g \<noteq> [] \<and> distinct (snake g) \<and> food g \<notin> set (snake g)"


text \<open>
  The direction in effect followed by the queued ones: all unit vectors, none the
  reversal of the one before it.
\<close>

definition queueInv :: "game \<Rightarrow> bool" where
  "queueInv g \<longleftrightarrow>
     list_all isDirection (directionRef g # moveQueue g) \<and>
     noReversal (directionRef g # moveQueue g)"

text \<open>The score is a non-negative multiple of ten and the high score is not below it.\<close>

definition scoreInv :: "game \<Rightarrow> bool" where
  "scoreInv g \<longleftrightarrow> 0 \<le> score g \<and> 10 dvd score g \<and> score g \<le> highScore g"

text \<open>
  A state in the middle of a game, for the scenarios: PLAYING with the given snake, food
  and direction, an empty queue and score 0.
\<close>

definition playing :: "cell list \<Rightarrow> cell \<Rightarrow> Direction \<Rightarrow> (nat \<Rightarrow> real) \<Rightarrow> game" where
  "playing cells foodCell dir rnd =
     \<lparr>gameState = PLAYING, speed = SPEEDS MEDIUM, score = 0, highScore = 0,
      viewMode = THIRD_PERSON, snake = cells, food = foodCell,
      direction = dir, directionRef = dir, moveQueue = [],
      localStorage = None, random = rnd, drawn = 0\<rparr>"

section \<open>Food placement\<close>

lemma isOnSnake_iff: "list_ex (\<lambda>(sx, sz). sx = x \<and> sz = z) cs \<longleftrightarrow> (x, z) \<in> set cs"
  by (induction cs) auto

lemma getRandomPosition_hit:
  "sampledCell rnd k \<notin> set cs \<Longrightarrow> getRandomPosition rnd k cs = Some (sampledCell rnd k, k + 2)"
  by (subst getRandomPosition.simps) (simp add: isOnSnake_iff sampledCell_def)

lemma getRandomPosition_miss:
  "sampledCell rnd k \<in> set cs \<Longrightarrow> getRandomPosition rnd k cs = getRandomPosition rnd (k + 2) cs"
  by (subst getRandomPosition.simps) (simp add: isOnSnake_iff sampledCell_def)

text \<open>The loop exits at the first iteration whose sample is off the snake.\<close>

lemma getRandomPosition_returns:
  "sampledCell rnd (k + 2 * n) \<notin> set cs \<Longrightarrow>
   \<exists>m\<le>n. sampledCell rnd (k + 2 * m) \<notin> set cs \<and>
     getRandomPosition rnd k cs = Some (sampledCell rnd (k + 2 * m), k + 2 * m + 2)"
proof (induction n arbitrary: k)
  case 0
  then show ?case by (simp add: getRandomPosition_hit)
next
  case (Suc n)
  show ?case
  proof (cases "sampledCell rnd k \<in> set cs")
    case False
    then have "getRandomPosition rnd k cs = Some (sampledCell rnd (k + 2 * 0), k + 2 * 0 + 2)"
      by (simp add: getRandomPosition_hit)
    with False show ?thesis by (intro exI [of _ 0]) simp
  next
    case True
    from Suc.prems have "sampledCell rnd ((k + 2) + 2 * n) \<notin> set cs"
      by (simp add: add.commute add.left_commute)
    from Suc.IH [OF this] obtain m where m: "m \<le> n"
      "sampledCell rnd (k + 2 + 2 * m) \<notin> set cs"
      "getRandomPosition rnd (k + 2) cs = Some (sampledCell rnd (k + 2 + 2 * m), k + 2 + 2 * m + 2)"
      by blast
    have "k + 2 + 2 * m = k + 2 * Suc m" by simp
    with m True show ?thesis
      by (intro exI [of _ "Suc m"]) (simp add: getRandomPosition_miss)
  qed
qed

text \<open>It exits at no other: whatever it returns was sampled, and is off the snake.\<close>

lemma getRandomPosition_Some:
  assumes "getRandomPosition rnd k cs = Some res"
  shows "\<exists>m. res = (sampledCell rnd (k + 2 * m), k + 2 * m + 2) \<and>
    sampledCell rnd (k + 2 * m) \<notin> set cs"
proof (rule getRandomPosition.raw_induct
    [where P = "\<lambda>rnd k cs res. \<exists>m. res = (sampledCell rnd (k + 2 * m), k + 2 * m + 2) \<and>
       sampledCell rnd (k + 2 * m) \<notin> set cs", OF _ assms])
  fix f :: "(nat \<Rightarrow> real) \<Rightarrow> nat \<Rightarrow> cell list \<Rightarrow> (cell \<times> nat) option" and rnd k cs res
  assume IH: "\<And>rnd k cs res. f rnd k cs = Some res \<Longrightarrow>
     \<exists>m. res = (sampledCell rnd (k + 2 * m), k + 2 * m + 2) \<and>
       sampledCell rnd (k + 2 * m) \<notin> set cs"
  assume body: "(let x = randomCoordinate (rnd k);
          z = randomCoordinate (rnd (k + 1));
          position = (x, z);
          isOnSnake = list_ex (\<lambda>(sx, sz). sx = x \<and> sz = z) cs
      in if isOnSnake then f rnd (k + 2) cs
         else Some (position, k + 2)) = Some res"
  show "\<exists>m. res = (sampledCell rnd (k + 2 * m), k + 2 * m + 2) \<and>
    sampledCell rnd (k + 2 * m) \<notin> set cs"
  proof (cases "sampledCell rnd k \<in> set cs")
    case True
    with body have "f rnd (k + 2) cs = Some res"
      by (simp add: isOnSnake_iff sampledCell_def)
    from IH [OF this] obtain m where
      "res = (sampledCell rnd (k + 2 + 2 * m), k + 2 + 2 * m + 2)"
      "sampledCell rnd (k + 2 + 2 * m) \<notin> set cs" by blast
    moreover have "k + 2 + 2 * m = k + 2 * Suc m" by simp
    ultimately show ?thesis by (intro exI [of _ "Suc m"]) simp
  next
    case False
    with body have "res = (sampledCell rnd k, k + 2)"
      by (auto simp add: isOnSnake_iff sampledCell_def)
    with False show ?thesis by (intro exI [of _ 0]) simp
  qed
qed

lemma getRandomPosition_off_snake:
  "getRandomPosition rnd k cs = Some (p, k') \<Longrightarrow> p \<notin> set cs"
  by (drule getRandomPosition_Some) auto

text \<open>When every iteration samples an occupied cell, the loop never exits.\<close>

lemma getRandomPosition_None:
  assumes "\<And>n. sampledCell rnd (k + 2 * n) \<in> set cs"
  shows "getRandomPosition rnd k cs = None"
proof (cases "getRandomPosition rnd k cs")
  case None
  then show ?thesis .
next
  case (Some res)
  from getRandomPosition_Some [OF this] assms show ?thesis by blast
qed

lemma randomCoordinate_bounds:
  assumes "0 \<le> r" "r < 1"
  shows "- BOUNDARY \<le> randomCoordinate r \<and> randomCoordinate r \<le> BOUNDARY"
proof -
  have "0 \<le> r * 21" using assms by simp
  then have lo: "0 \<le> \<lfloor>r * 21\<rfloor>" by simp
  have "r * 21 < 21" using assms by simp
  then have hi: "\<lfloor>r * 21\<rfloor> < 21" by (simp add: floor_less_iff)
  from lo hi show ?thesis
    by (simp add: randomCoordinate_def GRID_SIZE_def BOUNDARY_def)
qed

text \<open>Every coordinate of the grid is the sample of some result of \<open>Math.random()\<close>.\<close>

lemma randomCoordinate_onto:
  assumes "- BOUNDARY \<le> c" "c \<le> BOUNDARY"
  shows "\<exists>r. 0 \<le> r \<and> r < 1 \<and> randomCoordinate r = c"
proof (intro exI conjI)
  let ?r = "of_int (c + 10) / 21 :: real"
  from assms show "0 \<le> ?r" "?r < 1" by (simp_all add: BOUNDARY_def GRID_SIZE_def)
  have "?r * 21 = of_int (c + 10)" by simp
  then have "\<lfloor>?r * 21\<rfloor> = c + 10" by (simp only: floor_of_int)
  then show "randomCoordinate ?r = c"
    by (simp add: randomCoordinate_def GRID_SIZE_def BOUNDARY_def)
qed

lemma sampledCell_in_bounds:
  assumes "\<forall>i. 0 \<le> rnd i \<and> rnd i < 1"
  shows "\<not> wallCollision (sampledCell rnd k)"
  using randomCoordinate_bounds [of "rnd k"] randomCoordinate_bounds [of "rnd (k + 1)"] assms
  by (simp add: wallCollision_def sampledCell_def not_less)


text \<open>
  A free cell of the grid is what makes a return possible: some results of
  \<open>Math.random()\<close> place the food on it, and when the snake covers the grid no results
  make the loop exit.
\<close>

lemma free_cell_can_be_placed:
  assumes "\<not> wallCollision c" "c \<notin> set occupied"
  shows "\<exists>rnd. (\<forall>i. 0 \<le> rnd i \<and> rnd i < 1) \<and> getRandomPosition rnd 0 occupied = Some (c, 2)"
proof -
  from assms(1) have "- BOUNDARY \<le> fst c" "fst c \<le> BOUNDARY" "- BOUNDARY \<le> snd c" "snd c \<le> BOUNDARY"
    by (simp_all add: wallCollision_def not_less)
  with randomCoordinate_onto [of "fst c"] randomCoordinate_onto [of "snd c"] obtain r1 r2 where
    r: "0 \<le> r1" "r1 < 1" "randomCoordinate r1 = fst c"
       "0 \<le> r2" "r2 < 1" "randomCoordinate r2 = snd c" by blast
  let ?rnd = "\<lambda>i::nat. if i = 0 then r1 else r2"
  from r have "sampledCell ?rnd 0 = c" by (simp add: sampledCell_def)
  with assms(2) have "getRandomPosition ?rnd 0 occupied = Some (c, 0 + 2)"
    using getRandomPosition_hit [of ?rnd 0 occupied] by simp
  moreover from r have "\<forall>i. 0 \<le> ?rnd i \<and> ?rnd i < 1" by simp
  ultimately show ?thesis by (intro exI [of _ ?rnd]) simp
qed

lemma full_grid_never_returns:
  assumes "\<forall>i. 0 \<le> rnd i \<and> rnd i < 1" "\<And>c. \<not> wallCollision c \<Longrightarrow> c \<in> set occupied"
  shows "getRandomPosition rnd k occupied = None"
  using sampledCell_in_bounds [OF assms(1)] assms(2) by (intro getRandomPosition_None) blast




section \<open>The key handler outside a game\<close>

text \<open>
  C10. A key event received while the game state is not PLAYING changes nothing: the
  handler returns the state it was given, so the move queue, the direction in effect
  and the view mode are the ones from before.
\<close>

theorem handleKeyDown_not_PLAYING:
  assumes "gameState g \<noteq> PLAYING"
  shows "handleKeyDown eKey g = g \<and>
    moveQueue (handleKeyDown eKey g) = moveQueue g \<and>
    directionRef (handleKeyDown eKey g) = directionRef g \<and>
    direction (handleKeyDown eKey g) = direction g \<and>
    viewMode (handleKeyDown eKey g) = viewMode g"
  using assms by (simp add: handleKeyDown_def)

theorem handleKeyDown_not_PLAYING_witness:
  "gameState (App None (\<lambda>_. 1 / 2)) \<noteq> PLAYING \<and>
   handleKeyDown '' '' (App None (\<lambda>_. 1 / 2)) = App None (\<lambda>_. 1 / 2) \<and>
   viewMode (handleKeyDown '' '' (App None (\<lambda>_. 1 / 2))) = THIRD_PERSON \<and>
   moveQueue (handleKeyDown ''ArrowLeft'' (App None (\<lambda>_. 1 / 2))) = []"
proof -
  let ?g = "App None (\<lambda>_. 1 / 2)"
  have menu: "gameState ?g \<noteq> PLAYING"
    by (simp add: App_def initialState_def loadHighScore_def updateHighScore_def)
  have fields: "viewMode ?g = THIRD_PERSON" "moveQueue ?g = []"
    by (simp_all add: App_def initialState_def loadHighScore_def updateHighScore_def)
  from handleKeyDown_not_PLAYING [OF menu, of "'' ''"]
    handleKeyDown_not_PLAYING [OF menu, of "''ArrowLeft''"] menu fields
  show ?thesis by simp
qed

text \<open>While PLAYING the same keys do have an effect.\<close>

lemma handleKeyDown_PLAYING_examples:
  "viewMode (handleKeyDown '' '' (playing [(0, 0), (0, - 1)] (0, 5) (0, 1) rnd)) = FIRST_PERSON"
  "moveQueue (handleKeyDown ''ArrowLeft'' (playing [(0, 0), (0, - 1)] (0, 5) (0, 1) rnd)) = [(- 1, 0)]"
  "moveQueue (handleKeyDown ''W'' (playing [(0, 0), (0, - 1)] (0, 5) (0, 1) rnd)) = []"
  by (simp_all add: handleKeyDown_def playing_def toLowerCase_def toLowerCaseChar_def Let_def)

section \<open>Collisions\<close>

lemma selfCollision_iff: "selfCollision nh cs \<longleftrightarrow> nh \<in> set (butlast cs)"
  by (induction nh cs rule: selfCollision.induct) (auto simp: prod_eq_iff)

lemma in_set_butlast_nth: "x \<in> set (butlast cs) \<longleftrightarrow> (\<exists>i. i < length cs - 1 \<and> cs ! i = x)"
  by (auto simp: in_set_conv_nth nth_butlast)

lemma nextMove_fields:
  "snake (nextMove g) = snake g" "food (nextMove g) = food g" "score (nextMove g) = score g"
  "gameState (nextMove g) = gameState g" "highScore (nextMove g) = highScore g"
  "localStorage (nextMove g) = localStorage g" "random (nextMove g) = random g"
  "drawn (nextMove g) = drawn g" "viewMode (nextMove g) = viewMode g"
  "speed (nextMove g) = speed g"
  by (simp_all add: nextMove_def split: list.splits)

text \<open>
  C4. Let the new head be the head plus the direction in effect at this tick (after the
  queue has been consulted). If it lies outside \<open>[-BOUNDARY, BOUNDARY]\<close> in a
  coordinate, or equals a snake cell at an index other than the last, the tick returns
  with the game state GAME_OVER and with the snake, the food and the score it started
  with.
\<close>

theorem moveSnake_collision:
  assumes "snake g \<noteq> []"
    and "newHead = addDir (hd (snake g)) (directionRef (nextMove g))"
    and "fst newHead < - BOUNDARY \<or> BOUNDARY < fst newHead \<or>
         snd newHead < - BOUNDARY \<or> BOUNDARY < snd newHead \<or>
         (\<exists>i. i < length (snake g) - 1 \<and> snake g ! i = newHead)"
  shows "\<exists>g'. moveSnake g = Inr g' \<and> gameState g' = GAME_OVER \<and>
    snake g' = snake g \<and> food g' = food g \<and> score g' = score g"
proof -
  from assms(1) obtain h t where ht: "snake g = h # t" by (cases "snake g") auto
  from assms(3) have "wallCollision newHead \<or> selfCollision newHead (snake g)"
    unfolding wallCollision_def selfCollision_iff in_set_butlast_nth by auto
  then show ?thesis using assms(2) ht
    by (auto simp add: moveSnake_def Let_def nextMove_fields)
qed

theorem moveSnake_collision_witness:
  "snake (playing [(10, 0), (9, 0), (8, 0)] (0, 5) (1, 0) (\<lambda>_. 1 / 2)) \<noteq> [] \<and>
   addDir (hd (snake (playing [(10, 0), (9, 0), (8, 0)] (0, 5) (1, 0) (\<lambda>_. 1 / 2))))
     (directionRef (nextMove (playing [(10, 0), (9, 0), (8, 0)] (0, 5) (1, 0) (\<lambda>_. 1 / 2)))) =
     (11, 0) \<and>
   BOUNDARY < 11 \<and>
   (\<exists>g'. moveSnake (playing [(10, 0), (9, 0), (8, 0)] (0, 5) (1, 0) (\<lambda>_. 1 / 2)) = Inr g' \<and>
      gameState g' = GAME_OVER \<and> snake g' = [(10, 0), (9, 0), (8, 0)] \<and> food g' = (0, 5) \<and>
      score g' = 0)"
proof -
  let ?g = "playing [(10, 0), (9, 0), (8, 0)] (0, 5) (1, 0) (\<lambda>_. 1 / 2)"
  have a: "snake ?g \<noteq> []" by (simp add: playing_def)
  have b: "(11, 0) = addDir (hd (snake ?g)) (directionRef (nextMove ?g))"
    by (simp add: playing_def nextMove_def addDir_def)
  have c: "BOUNDARY < 11" by (simp add: BOUNDARY_def GRID_SIZE_def)
  then have d: "fst (11 :: int, 0 :: int) < - BOUNDARY \<or> BOUNDARY < fst (11 :: int, 0 :: int) \<or>
         snd (11 :: int, 0 :: int) < - BOUNDARY \<or> BOUNDARY < snd (11 :: int, 0 :: int) \<or>
         (\<exists>i. i < length (snake ?g) - 1 \<and> snake ?g ! i = (11, 0))" by simp
  from moveSnake_collision [OF a b d] obtain g' where
    "moveSnake ?g = Inr g'" "gameState g' = GAME_OVER" "snake g' = snake ?g"
    "food g' = food ?g" "score g' = score ?g" by blast
  moreover have "snake ?g = [(10, 0), (9, 0), (8, 0)]" "food ?g = (0, 5)" "score ?g = 0"
    by (simp_all add: playing_def)
  ultimately show ?thesis using a b [symmetric] c by auto
qed

text \<open>
  The same for a body cell: the head turns back onto the second cell of a snake of five
  (an index other than the last), with the food elsewhere.
\<close>

lemma moveSnake_self_collision_example:
  "\<exists>g'. moveSnake (playing [(0, 0), (1, 0), (1, 1), (0, 1), (- 1, 1)] (5, 5) (0, 1) rnd) = Inr g' \<and>
     gameState g' = GAME_OVER \<and> snake g' = [(0, 0), (1, 0), (1, 1), (0, 1), (- 1, 1)]"
  by (simp add: moveSnake_def playing_def nextMove_def addDir_def wallCollision_def
      BOUNDARY_def GRID_SIZE_def Let_def)

section \<open>Invariants of the reachable states\<close>

lemma trace_invariant:
  assumes "P g0" and step: "\<And>g e g'. P g \<Longrightarrow> step g e = Inr g' \<Longrightarrow> P g'"
  shows "g \<in> set (trace g0 evs) \<Longrightarrow> P g"
  using assms(1)
proof (induction evs arbitrary: g0)
  case Nil
  then show ?case by simp
next
  case (Cons e es)
  show ?case
  proof (cases "step g0 e")
    case (Inl err)
    with Cons.prems show ?thesis by simp
  next
    case (Inr g1)
    with Cons.prems have "g = g0 \<or> g \<in> set (trace g1 es)" by simp
    then show ?thesis
    proof
      assume "g = g0" with Cons.prems show ?thesis by simp
    next
      assume "g \<in> set (trace g1 es)"
      moreover have "P g1" using step [OF Cons.prems(2) Inr] .
      ultimately show ?thesis by (rule Cons.IH)
    qed
  qed
qed

lemma moveSnake_unfold:
  assumes "snake g \<noteq> []"
  shows "moveSnake g =
    (if wallCollision (newHeadOf g) \<or> selfCollision (newHeadOf g) (snake g)
     then Inr ((nextMove g)\<lparr>gameState := GAME_OVER\<rparr>)
     else if newHeadOf g = food g
     then (case getRandomPosition (random g) (drawn g) (newHeadOf g # snake g) of
             None \<Rightarrow> Inl NonTermination
           | Some (position, k) \<Rightarrow>
               Inr ((nextMove g)\<lparr>score := score g + 10, food := position, drawn := k,
                                  snake := newHeadOf g # snake g\<rparr>))
     else Inr ((nextMove g)\<lparr>snake := butlast (newHeadOf g # snake g)\<rparr>))"
proof -
  from assms obtain h t where ht: "snake g = h # t" by (cases "snake g") auto
  then have nh: "addDir h (directionRef (nextMove g)) = newHeadOf g"
    by (simp add: newHeadOf_def)
  show ?thesis
    unfolding moveSnake_def Let_def nextMove_fields ht list.case nh
    by (simp add: prod_eq_iff)
qed

lemma moveSnake_empty: "snake g = [] \<Longrightarrow> moveSnake g = Inl TypeError"
  by (simp add: moveSnake_def Let_def nextMove_fields)

lemma moveSnake_cases:
  assumes "moveSnake g = Inr g'"
  obtains
    (collision) "snake g \<noteq> []"
      "wallCollision (newHeadOf g) \<or> selfCollision (newHeadOf g) (snake g)"
      "g' = (nextMove g)\<lparr>gameState := GAME_OVER\<rparr>"
  | (eat) position k where "snake g \<noteq> []"
      "\<not> wallCollision (newHeadOf g)" "\<not> selfCollision (newHeadOf g) (snake g)"
      "newHeadOf g = food g"
      "getRandomPosition (random g) (drawn g) (newHeadOf g # snake g) = Some (position, k)"
      "g' = (nextMove g)\<lparr>score := score g + 10, food := position, drawn := k,
                          snake := newHeadOf g # snake g\<rparr>"
  | (move) "snake g \<noteq> []"
      "\<not> wallCollision (newHeadOf g)" "\<not> selfCollision (newHeadOf g) (snake g)"
      "newHeadOf g \<noteq> food g"
      "g' = (nextMove g)\<lparr>snake := butlast (newHeadOf g # snake g)\<rparr>"
proof (cases "snake g = []")
  case True
  with assms show ?thesis by (simp add: moveSnake_empty)
next
  case ne: False
  note u = moveSnake_unfold [OF ne]
  show ?thesis
  proof (cases "wallCollision (newHeadOf g) \<or> selfCollision (newHeadOf g) (snake g)")
    case True
    with assms u have "g' = (nextMove g)\<lparr>gameState := GAME_OVER\<rparr>" by simp
    with ne True show ?thesis by (rule collision)
  next
    case False
    show ?thesis
    proof (cases "newHeadOf g = food g")
      case True
      with assms u False obtain position k where
        "getRandomPosition (random g) (drawn g) (newHeadOf g # snake g) = Some (position, k)"
        "g' = (nextMove g)\<lparr>score := score g + 10, food := position, drawn := k,
                          snake := newHeadOf g # snake g\<rparr>"
        by (auto split: option.splits)
      with ne False True show ?thesis by (intro eat) auto
    next
      case nf: False
      with assms u False
      have "g' = (nextMove g)\<lparr>snake := butlast (newHeadOf g # snake g)\<rparr>" by simp
      with ne False nf show ?thesis by (intro move) auto
    qed
  qed
qed

lemma moveSnake_snakeInv:
  assumes "distinct (snake g)" "food g \<notin> set (snake g)" "moveSnake g = Inr g'"
  shows "snakeInv g'"
  using assms(3)
proof (cases rule: moveSnake_cases)
  case collision
  with assms show ?thesis by (simp add: snakeInv_def nextMove_fields)
next
  case (eat position k)
  from eat(4) assms(2) have "newHeadOf g \<notin> set (snake g)" by simp
  moreover from eat(5) have "position \<notin> set (newHeadOf g # snake g)"
    by (rule getRandomPosition_off_snake)
  ultimately show ?thesis using assms(1) eat(6) by (simp add: snakeInv_def)
next
  case move
  from move(3) have "newHeadOf g \<notin> set (butlast (snake g))" by (simp add: selfCollision_iff)
  moreover have "distinct (butlast (snake g))" using assms(1) by (rule distinct_butlast)
  moreover have "food g \<notin> set (butlast (snake g))" using assms(2) by (auto dest: in_set_butlastD)
  ultimately show ?thesis using move(1,4,5) by (auto simp add: snakeInv_def nextMove_fields)
qed

lemma updateHighScore_fields:
  "snake (updateHighScore g) = snake g" "food (updateHighScore g) = food g"
  "score (updateHighScore g) = score g" "gameState (updateHighScore g) = gameState g"
  "directionRef (updateHighScore g) = directionRef g" "moveQueue (updateHighScore g) = moveQueue g"
  "random (updateHighScore g) = random g" "drawn (updateHighScore g) = drawn g"
  "direction (updateHighScore g) = direction g" "viewMode (updateHighScore g) = viewMode g"
  "speed (updateHighScore g) = speed g"
  by (simp_all add: updateHighScore_def)

lemma handleKeyDown_fields:
  "snake (handleKeyDown eKey g) = snake g" "food (handleKeyDown eKey g) = food g"
  "score (handleKeyDown eKey g) = score g" "gameState (handleKeyDown eKey g) = gameState g"
  "directionRef (handleKeyDown eKey g) = directionRef g"
  "highScore (handleKeyDown eKey g) = highScore g"
  "localStorage (handleKeyDown eKey g) = localStorage g"
  "random (handleKeyDown eKey g) = random g" "drawn (handleKeyDown eKey g) = drawn g"
  by (simp_all add: handleKeyDown_def Let_def split: option.splits)

lemma startGame_cases:
  assumes "startGame selectedSpeed g = Inr g'"
  obtains position k where
    "getRandomPosition (random g) (drawn g) [(0, 0), (0, - 1), (0, - 2)] = Some (position, k)"
    "g' = g\<lparr>speed := selectedSpeed, snake := [(0, 0), (0, - 1), (0, - 2)],
            direction := (0, 1), directionRef := (0, 1), moveQueue := [], score := 0,
            food := position, drawn := k, gameState := PLAYING, viewMode := THIRD_PERSON\<rparr>"
  using assms by (auto simp add: startGame_def split: option.splits)

lemma startGame_snakeInv:
  assumes "startGame selectedSpeed g = Inr g'"
  shows "snakeInv g'"
  using assms
proof (cases rule: startGame_cases)
  case (1 position k)
  from 1(1) have "position \<notin> set [(0, 0), (0, - 1), (0, - 2)]"
    by (rule getRandomPosition_off_snake)
  with 1(2) show ?thesis by (simp add: snakeInv_def)
qed

lemma step_snakeInv:
  assumes "snakeInv g" "step g e = Inr g'"
  shows "snakeInv g'"
proof (cases e)
  case (KeyDown eKey)
  with assms show ?thesis by (auto simp add: snakeInv_def handleKeyDown_fields)
next
  case Tick
  show ?thesis
  proof (cases "gameState g = PLAYING")
    case True
    with assms(2) Tick obtain g1 where g1: "moveSnake g = Inr g1" "g' = updateHighScore g1"
      by (auto split: sum.splits)
    from assms(1) have "distinct (snake g)" "food g \<notin> set (snake g)"
      by (simp_all add: snakeInv_def)
    then have "snakeInv g1" using g1(1) by (rule moveSnake_snakeInv)
    with g1(2) show ?thesis by (simp add: snakeInv_def updateHighScore_fields)
  next
    case False
    with assms Tick show ?thesis by simp
  qed
next
  case (ClickStart s)
  show ?thesis
  proof (cases "gameState g = MENU")
    case True
    with assms(2) ClickStart obtain g1 where
      g1: "startGame (SPEEDS s) g = Inr g1" "g' = updateHighScore g1"
      by (auto split: sum.splits)
    from g1(1) have "snakeInv g1" by (rule startGame_snakeInv)
    with g1(2) show ?thesis by (simp add: snakeInv_def updateHighScore_fields)
  next
    case False
    with assms ClickStart show ?thesis by simp
  qed
next
  case ClickMainMenu
  with assms show ?thesis by (auto simp add: snakeInv_def split: if_splits)
qed

lemma App_snakeInv: "snakeInv (App stored rnd)"
  by (simp add: App_def snakeInv_def updateHighScore_fields loadHighScore_def initialState_def
      split: option.splits)

lemma reachable_snakeInv:
  "g \<in> set (trace (App stored rnd) evs) \<Longrightarrow> snakeInv g"
  by (rule trace_invariant [where P = snakeInv, OF App_snakeInv step_snakeInv])

section \<open>The scripted game\<close>

lemma scripted_cells:
  "sampledCell scriptedRandom 0 = (0, 1)"
  "sampledCell scriptedRandom (Suc (Suc 0)) = (6, 6)"
  "sampledCell scriptedRandom 2 = (6, 6)"
  by (simp_all add: sampledCell_def scriptedRandom_def randomCoordinate_def
      GRID_SIZE_def BOUNDARY_def)


text \<open>The game starts with the food one cell ahead of the head, and the first tick eats it.\<close>

lemma scripted_start:
  "step (App None scriptedRandom) (ClickStart MEDIUM) =
     Inr ((playing [(0, 0), (0, - 1), (0, - 2)] (0, 1) (0, 1) scriptedRandom)\<lparr>drawn := 2\<rparr>)"
  by (simp add: App_def initialState_def loadHighScore_def updateHighScore_def startGame_def
      getRandomPosition_hit scripted_cells playing_def)

lemma scripted_first_tick:
  "step ((playing [(0, 0), (0, - 1), (0, - 2)] (0, 1) (0, 1) scriptedRandom)\<lparr>drawn := 2\<rparr>) Tick =
     Inr ((playing [(0, 1), (0, 0), (0, - 1), (0, - 2)] (6, 6) (0, 1) scriptedRandom)
            \<lparr>score := 10, highScore := 10, localStorage := Some 10, drawn := 4\<rparr>)"
  by (simp add: moveSnake_def nextMove_def addDir_def wallCollision_def BOUNDARY_def
      GRID_SIZE_def Let_def updateHighScore_def getRandomPosition_hit scripted_cells playing_def)

lemma scripted_second_tick:
  "step ((playing [(0, 1), (0, 0), (0, - 1), (0, - 2)] (6, 6) (0, 1) scriptedRandom)
            \<lparr>score := 10, highScore := 10, localStorage := Some 10, drawn := 4\<rparr>) Tick =
     Inr ((playing [(0, 2), (0, 1), (0, 0), (0, - 1)] (6, 6) (0, 1) scriptedRandom)
            \<lparr>score := 10, highScore := 10, localStorage := Some 10, drawn := 4\<rparr>)"
  by (simp add: moveSnake_def nextMove_def addDir_def wallCollision_def BOUNDARY_def
      GRID_SIZE_def Let_def updateHighScore_def playing_def)

lemma scripted_trace:
  "trace (App None scriptedRandom) [ClickStart MEDIUM, Tick, Tick] =
     [App None scriptedRandom,
      (playing [(0, 0), (0, - 1), (0, - 2)] (0, 1) (0, 1) scriptedRandom)\<lparr>drawn := 2\<rparr>,
      (playing [(0, 1), (0, 0), (0, - 1), (0, - 2)] (6, 6) (0, 1) scriptedRandom)
         \<lparr>score := 10, highScore := 10, localStorage := Some 10, drawn := 4\<rparr>,
      (playing [(0, 2), (0, 1), (0, 0), (0, - 1)] (6, 6) (0, 1) scriptedRandom)
         \<lparr>score := 10, highScore := 10, localStorage := Some 10, drawn := 4\<rparr>]"
  by (simp del: step.simps add: scripted_start scripted_first_tick scripted_second_tick)

lemma moveSnake_of_step:
  "gameState g = PLAYING \<Longrightarrow> step g Tick = Inr g' \<Longrightarrow> \<exists>g1. moveSnake g = Inr g1 \<and> g' = updateHighScore g1"
  by (auto split: sum.splits)

section \<open>The snake\<close>

text \<open>
  C1. In every state that the component reaches the snake has no two equal cells, and a
  tick run from it gives a snake with no two equal cells again.
\<close>

theorem snake_duplicate_free:
  assumes "g \<in> set (trace (App stored rnd) evs)"
  shows "distinct (snake g) \<and> (\<forall>g'. moveSnake g = Inr g' \<longrightarrow> distinct (snake g'))"
proof -
  from assms have "snakeInv g" by (rule reachable_snakeInv)
  then have d: "distinct (snake g)" and f: "food g \<notin> set (snake g)"
    by (simp_all add: snakeInv_def)
  have "distinct (snake g')" if "moveSnake g = Inr g'" for g'
    using moveSnake_snakeInv [OF d f that] by (simp add: snakeInv_def)
  with d show ?thesis by blast
qed

theorem snake_duplicate_free_witness:
  "(playing [(0, 0), (0, - 1), (0, - 2)] (0, 1) (0, 1) scriptedRandom)\<lparr>drawn := 2\<rparr>
     \<in> set (trace (App None scriptedRandom) [ClickStart MEDIUM, Tick, Tick]) \<and>
   (\<exists>g'. moveSnake ((playing [(0, 0), (0, - 1), (0, - 2)] (0, 1) (0, 1) scriptedRandom)\<lparr>drawn := 2\<rparr>) = Inr g' \<and>
      snake g' = [(0, 1), (0, 0), (0, - 1), (0, - 2)] \<and> distinct (snake g'))"
proof -
  let ?g = "(playing [(0, 0), (0, - 1), (0, - 2)] (0, 1) (0, 1) scriptedRandom)\<lparr>drawn := 2\<rparr>"
  have r: "?g \<in> set (trace (App None scriptedRandom) [ClickStart MEDIUM, Tick, Tick])"
    unfolding scripted_trace by simp
  have "gameState ?g = PLAYING" by (simp add: playing_def)
  from moveSnake_of_step [OF this scripted_first_tick] obtain g1 where
    g1: "moveSnake ?g = Inr g1" and
    "(playing [(0, 1), (0, 0), (0, - 1), (0, - 2)] (6, 6) (0, 1) scriptedRandom)
            \<lparr>score := 10, highScore := 10, localStorage := Some 10, drawn := 4\<rparr> = updateHighScore g1"
    by blast
  then have "snake g1 = snake ((playing [(0, 1), (0, 0), (0, - 1), (0, - 2)] (6, 6) (0, 1) scriptedRandom)
            \<lparr>score := 10, highScore := 10, localStorage := Some 10, drawn := 4\<rparr>)"
    by (simp add: updateHighScore_fields)
  then have s: "snake g1 = [(0, 1), (0, 0), (0, - 1), (0, - 2)]" by (simp add: playing_def)
  from snake_duplicate_free [OF r] g1 have "distinct (snake g1)" by blast
  with r g1 s show ?thesis by blast
qed


text \<open>
  The check against the body leaves out the last cell of the snake, also on a tick that
  eats, where the tail stays. What keeps the snake free of duplicates then is that the
  food is never on the snake: in a state with the food on the tail cell, which the
  component does not reach, the tick would grow the snake onto its own tail.
\<close>

lemma food_on_tail_example:
  "distinct (snake (playing [(0, 0), (1, 0), (1, 1), (0, 1)] (0, 1) (0, 1) (\<lambda>_. 4 / 5))) \<and>
   (\<exists>g'. moveSnake (playing [(0, 0), (1, 0), (1, 1), (0, 1)] (0, 1) (0, 1) (\<lambda>_. 4 / 5)) = Inr g' \<and>
      snake g' = [(0, 1), (0, 0), (1, 0), (1, 1), (0, 1)] \<and> \<not> distinct (snake g'))"
proof -
  have "sampledCell (\<lambda>_. 4 / 5) 0 = (6, 6)"
    by (simp add: sampledCell_def randomCoordinate_def GRID_SIZE_def BOUNDARY_def)
  then show ?thesis
    by (simp add: moveSnake_def nextMove_def addDir_def wallCollision_def BOUNDARY_def
        GRID_SIZE_def Let_def getRandomPosition_hit playing_def)
qed

text \<open>
  C9. In every state that the component reaches, the food cell is not a cell of the
  snake, and a tick run from it leaves the food off the snake: when the head moves onto the
  food, the new food is placed against the grown snake.
\<close>

theorem food_off_snake:
  assumes "g \<in> set (trace (App stored rnd) evs)"
  shows "food g \<notin> set (snake g) \<and> (\<forall>g'. moveSnake g = Inr g' \<longrightarrow> food g' \<notin> set (snake g'))"
proof -
  from assms have "snakeInv g" by (rule reachable_snakeInv)
  then have d: "distinct (snake g)" and f: "food g \<notin> set (snake g)"
    by (simp_all add: snakeInv_def)
  have "food g' \<notin> set (snake g')" if "moveSnake g = Inr g'" for g'
    using moveSnake_snakeInv [OF d f that] by (simp add: snakeInv_def)
  with f show ?thesis by blast
qed

theorem food_off_snake_witness:
  "(playing [(0, 1), (0, 0), (0, - 1), (0, - 2)] (6, 6) (0, 1) scriptedRandom)
       \<lparr>score := 10, highScore := 10, localStorage := Some 10, drawn := 4\<rparr>
     \<in> set (trace (App None scriptedRandom) [ClickStart MEDIUM, Tick, Tick]) \<and>
   gameState ((playing [(0, 1), (0, 0), (0, - 1), (0, - 2)] (6, 6) (0, 1) scriptedRandom)
       \<lparr>score := 10, highScore := 10, localStorage := Some 10, drawn := 4\<rparr>) = PLAYING \<and>
   (6, 6) \<notin> set [(0, 1), (0, 0), (0, - 1), (0, - 2 :: int)] \<and>
   food ((playing [(0, 1), (0, 0), (0, - 1), (0, - 2)] (6, 6) (0, 1) scriptedRandom)
       \<lparr>score := 10, highScore := 10, localStorage := Some 10, drawn := 4\<rparr>)
     \<notin> set (snake ((playing [(0, 1), (0, 0), (0, - 1), (0, - 2)] (6, 6) (0, 1) scriptedRandom)
       \<lparr>score := 10, highScore := 10, localStorage := Some 10, drawn := 4\<rparr>))"
proof -
  let ?g = "(playing [(0, 1), (0, 0), (0, - 1), (0, - 2)] (6, 6) (0, 1) scriptedRandom)
       \<lparr>score := 10, highScore := 10, localStorage := Some 10, drawn := 4\<rparr>"
  have r: "?g \<in> set (trace (App None scriptedRandom) [ClickStart MEDIUM, Tick, Tick])"
    unfolding scripted_trace by simp
  have "gameState ?g = PLAYING" by (simp add: playing_def)
  with r food_off_snake [OF r] show ?thesis by simp
qed

section \<open>Food in bounds\<close>




section \<open>Length of the snake\<close>



section \<open>Starting a game\<close>

text \<open>
  C7. \<open>startGame\<close> places the food with \<open>getRandomPosition\<close>, which returns when
  one of its iterations samples a cell off the initial snake. Then, whatever the prior
  state, the transition produces a state with the snake \<open>[(0, 0), (0, -1), (0, -2)]\<close>,
  the direction \<open>(0, 1)\<close> in effect, an empty queue, score 0, the food off the snake,
  the game state PLAYING and the chosen speed as tick period.
\<close>

theorem startGame_resets:
  assumes "sampledCell (random g) (drawn g + 2 * n) \<notin> set [(0, 0), (0, - 1), (0, - 2)]"
  shows "\<exists>g'. startGame selectedSpeed g = Inr g' \<and>
    snake g' = [(0, 0), (0, - 1), (0, - 2)] \<and>
    direction g' = (0, 1) \<and> directionRef g' = (0, 1) \<and> moveQueue g' = [] \<and>
    score g' = 0 \<and> food g' \<notin> set (snake g') \<and> gameState g' = PLAYING \<and>
    speed g' = selectedSpeed"
proof -
  from getRandomPosition_returns [OF assms] obtain m where
    m: "sampledCell (random g) (drawn g + 2 * m) \<notin> set [(0, 0), (0, - 1), (0, - 2)]"
    "getRandomPosition (random g) (drawn g) [(0, 0), (0, - 1), (0, - 2)] =
       Some (sampledCell (random g) (drawn g + 2 * m), drawn g + 2 * m + 2)"
    by blast
  from m(2) have "startGame selectedSpeed g =
    Inr (g\<lparr>speed := selectedSpeed, snake := [(0, 0), (0, - 1), (0, - 2)],
            direction := (0, 1), directionRef := (0, 1), moveQueue := [], score := 0,
            food := sampledCell (random g) (drawn g + 2 * m), drawn := drawn g + 2 * m + 2,
            gameState := PLAYING, viewMode := THIRD_PERSON\<rparr>)"
    by (simp add: startGame_def)
  with m(1) show ?thesis by simp
qed

theorem startGame_resets_witness:
  "sampledCell (random (App None scriptedRandom)) (drawn (App None scriptedRandom) + 2 * 0)
     \<notin> set [(0, 0), (0, - 1), (0, - 2)] \<and>
   (\<exists>g'. startGame 70 (App None scriptedRandom) = Inr g' \<and>
      snake g' = [(0, 0), (0, - 1), (0, - 2)] \<and> direction g' = (0, 1) \<and>
      directionRef g' = (0, 1) \<and> moveQueue g' = [] \<and> score g' = 0 \<and>
      food g' \<notin> set (snake g') \<and> gameState g' = PLAYING \<and> speed g' = 70)"
proof -
  have "random (App None scriptedRandom) = scriptedRandom" "drawn (App None scriptedRandom) = 0"
    by (simp_all add: App_def initialState_def loadHighScore_def updateHighScore_def)
  then have free: "sampledCell (random (App None scriptedRandom))
      (drawn (App None scriptedRandom) + 2 * 0) \<notin> set [(0, 0), (0, - 1), (0, - 2)]"
    by (simp add: scripted_cells)
  from free startGame_resets [OF free, of 70] show ?thesis by blast
qed

text \<open>The click on a speed button in MENU is this transition, with the speed of the button.\<close>

lemma step_ClickStart_MENU:
  assumes "gameState g = MENU" "0 \<le> highScore g" "startGame (SPEEDS s) g = Inr g'"
  shows "step g (ClickStart s) = Inr g'"
proof -
  from assms(3) have "score g' = 0" "highScore g' = highScore g"
    by (auto elim!: startGame_cases)
  with assms(2) have "updateHighScore g' = g'" by (simp add: updateHighScore_def)
  with assms(1,3) show ?thesis by simp
qed

text \<open>When no iteration samples a cell off the initial snake, \<open>startGame\<close> does not return.\<close>

lemma startGame_NonTermination:
  assumes "\<And>n. sampledCell (random g) (drawn g + 2 * n) \<in> set [(0, 0), (0, - 1), (0, - 2)]"
  shows "startGame selectedSpeed g = Inl NonTermination"
  using getRandomPosition_None [of "random g" "drawn g" "[(0, 0), (0, - 1), (0, - 2)]"] assms
  by (simp add: startGame_def)

section \<open>The scenario of the food three cells ahead\<close>


lemma scenario_third_tick:
  "step (playing [(0, 4), (0, 3), (0, 2)] (0, 5) (0, 1) rnd) Tick =
     (case getRandomPosition rnd 0 [(0, 5), (0, 4), (0, 3), (0, 2)] of
        None \<Rightarrow> Inl NonTermination
      | Some (position, k) \<Rightarrow>
          Inr ((playing [(0, 5), (0, 4), (0, 3), (0, 2)] position (0, 1) rnd)
                 \<lparr>score := 10, highScore := 10, localStorage := Some 10, drawn := k\<rparr>))"
  by (simp add: moveSnake_def nextMove_def addDir_def wallCollision_def
      BOUNDARY_def GRID_SIZE_def Let_def updateHighScore_def playing_def split: option.splits)






section \<open>Score and high score\<close>

lemma updateHighScore_scoreInv:
  "0 \<le> score g \<Longrightarrow> 10 dvd score g \<Longrightarrow> scoreInv (updateHighScore g)"
  by (simp add: scoreInv_def updateHighScore_def)

lemma updateHighScore_mono: "highScore g \<le> highScore (updateHighScore g)"
  by (simp add: updateHighScore_def)

lemma moveSnake_score:
  assumes "moveSnake g = Inr g'"
  shows "(score g' = score g \<or> score g' = score g + 10) \<and> highScore g' = highScore g \<and>
    localStorage g' = localStorage g"
  using assms by (cases rule: moveSnake_cases) (simp_all add: nextMove_fields)

lemma startGame_score:
  assumes "startGame selectedSpeed g = Inr g'"
  shows "score g' = 0 \<and> highScore g' = highScore g \<and> localStorage g' = localStorage g"
  using assms by (cases rule: startGame_cases) simp

lemma updateHighScore_idle: "score g \<le> highScore g \<Longrightarrow> updateHighScore g = g"
  by (simp add: updateHighScore_def)

text \<open>
  An event changes the score by 0 or 10, or sets it to 0, and leaves the high score to
  the effect on \<open>[score, highScore]\<close>, which runs after it.
\<close>

lemma step_then_effect:
  assumes "scoreInv g" "step g e = Inr g'"
  obtains g1 where "g' = updateHighScore g1"
    "score g1 = score g \<or> score g1 = score g + 10 \<or> score g1 = 0"
    "highScore g1 = highScore g" "localStorage g1 = localStorage g"
proof -
  note obt = that
  from assms(1) have le: "score g \<le> highScore g" by (simp add: scoreInv_def)
  have same: thesis if eqs: "score g' = score g" "highScore g' = highScore g"
    "localStorage g' = localStorage g"
  proof (rule obt [of g'])
    from eqs le show "g' = updateHighScore g'" by (simp add: updateHighScore_idle)
  qed (use eqs in simp_all)
  show thesis
  proof (cases e)
    case (KeyDown eKey)
    with assms(2) have "g' = handleKeyDown eKey g" by simp
    then show ?thesis by (intro same) (simp_all add: handleKeyDown_fields)
  next
    case Tick
    show ?thesis
    proof (cases "gameState g = PLAYING")
      case True
      from moveSnake_of_step [OF True] assms(2) Tick obtain g1 where
        g1: "moveSnake g = Inr g1" "g' = updateHighScore g1" by blast
      from moveSnake_score [OF g1(1)] g1(2) show ?thesis by (intro obt [of g1]) auto
    next
      case False
      with assms(2) Tick show ?thesis by (intro same) simp_all
    qed
  next
    case (ClickStart s)
    show ?thesis
    proof (cases "gameState g = MENU")
      case True
      with assms(2) ClickStart obtain g1 where
        g1: "startGame (SPEEDS s) g = Inr g1" "g' = updateHighScore g1"
        by (auto split: sum.splits)
      from startGame_score [OF g1(1)] g1(2) show ?thesis by (intro obt [of g1]) auto
    next
      case False
      with assms(2) ClickStart show ?thesis by (intro same) simp_all
    qed
  next
    case ClickMainMenu
    with assms(2) show ?thesis by (intro same) (auto split: if_splits)
  qed
qed

lemma step_scoreInv:
  assumes "scoreInv g" "step g e = Inr g'"
  shows "scoreInv g'"
  using assms
proof (cases rule: step_then_effect)
  case (1 g1)
  from 1(2) assms(1) have "0 \<le> score g1" "10 dvd score g1"
    by (auto simp add: scoreInv_def)
  with 1(1) show ?thesis by (simp add: updateHighScore_scoreInv)
qed

lemma App_scoreInv: "scoreInv (App stored rnd)"
  unfolding App_def
  by (rule updateHighScore_scoreInv)
    (simp_all add: loadHighScore_def initialState_def split: option.splits)

lemma reachable_scoreInv: "g \<in> set (trace (App stored rnd) evs) \<Longrightarrow> scoreInv g"
  by (rule trace_invariant [where P = scoreInv, OF App_scoreInv step_scoreInv])

text \<open>The stored item is the high score; it is absent only while the high score is 0.\<close>

lemma updateHighScore_stored:
  assumes "localStorage g = Some (highScore g) \<or> localStorage g = None \<and> highScore g = 0"
  shows "localStorage (updateHighScore g) = Some (highScore (updateHighScore g)) \<or>
    localStorage (updateHighScore g) = None \<and> highScore (updateHighScore g) = 0"
  using assms by (simp add: updateHighScore_def)

lemma reachable_stored:
  assumes "g \<in> set (trace (App stored rnd) evs)"
  shows "scoreInv g \<and>
    (localStorage g = Some (highScore g) \<or> localStorage g = None \<and> highScore g = 0)"
proof (rule trace_invariant [where P = "\<lambda>g. scoreInv g \<and>
    (localStorage g = Some (highScore g) \<or> localStorage g = None \<and> highScore g = 0)", OF _ _ assms])
  show "scoreInv (App stored rnd) \<and>
    (localStorage (App stored rnd) = Some (highScore (App stored rnd)) \<or>
     localStorage (App stored rnd) = None \<and> highScore (App stored rnd) = 0)"
    using App_scoreInv [of stored rnd]
    by (auto simp add: App_def loadHighScore_def initialState_def
        intro!: updateHighScore_stored split: option.splits)
next
  fix g e g'
  assume inv: "scoreInv g \<and>
    (localStorage g = Some (highScore g) \<or> localStorage g = None \<and> highScore g = 0)"
    and st: "step g e = Inr g'"
  from inv st have "scoreInv g'" by (auto intro: step_scoreInv)
  moreover have "localStorage g' = Some (highScore g') \<or>
      localStorage g' = None \<and> highScore g' = 0"
  proof -
    from inv have "scoreInv g" ..
    from this st obtain g1 where g1: "g' = updateHighScore g1"
      "highScore g1 = highScore g" "localStorage g1 = localStorage g"
      by (rule step_then_effect)
    from inv g1(2,3) have "localStorage g1 = Some (highScore g1) \<or>
      localStorage g1 = None \<and> highScore g1 = 0" by simp
    then show ?thesis unfolding g1(1) by (rule updateHighScore_stored)
  qed
  ultimately show "scoreInv g' \<and>
    (localStorage g' = Some (highScore g') \<or> localStorage g' = None \<and> highScore g' = 0)" ..
qed

text \<open>A restart of the component reads the high score back.\<close>

lemma reachable_restart:
  assumes "g \<in> set (trace (App stored rnd) evs)"
  shows "highScore (App (localStorage g) rnd') = highScore g"
proof -
  from reachable_stored [OF assms] have "0 \<le> highScore g"
    and "localStorage g = Some (highScore g) \<or> localStorage g = None \<and> highScore g = 0"
    by (auto simp add: scoreInv_def)
  then show ?thesis
    by (auto simp add: App_def loadHighScore_def initialState_def updateHighScore_def)
qed

lemma step_highScore_mono:
  assumes "scoreInv g" "step g e = Inr g'"
  shows "highScore g \<le> highScore g'"
  using assms
proof (cases rule: step_then_effect)
  case (1 g1)
  with updateHighScore_mono [of g1] show ?thesis by simp
qed

lemma trace_highScore_mono:
  assumes "scoreInv g" "g' \<in> set (trace g evs)"
  shows "highScore g \<le> highScore g'"
  using assms
proof (induction evs arbitrary: g)
  case Nil
  then show ?case by simp
next
  case (Cons e es)
  show ?case
  proof (cases "step g e")
    case (Inl err)
    with Cons.prems show ?thesis by simp
  next
    case (Inr g1)
    with Cons.prems consider "g' = g" | "g' \<in> set (trace g1 es)" by auto
    then show ?thesis
    proof cases
      case 1
      then show ?thesis by simp
    next
      case 2
      from Cons.prems(1) Inr have "scoreInv g1" by (rule step_scoreInv)
      from Cons.IH [OF this 2] step_highScore_mono [OF Cons.prems(1) Inr]
      show ?thesis by simp
    qed
  qed
qed

lemma trace_nonempty: "trace g evs \<noteq> []"
  by (cases evs) simp_all

lemma trace_hd: "trace g evs ! 0 = g"
  by (cases evs) simp_all

text \<open>A later state of a trace is a state of the trace that starts at an earlier one.\<close>

lemma trace_later:
  assumes "j < length (trace g evs)" "i \<le> j"
  shows "trace g evs ! j \<in> set (trace (trace g evs ! i) (drop i evs))"
  using assms
proof (induction evs arbitrary: g i j)
  case Nil
  then show ?case by simp
next
  case (Cons e es)
  show ?case
  proof (cases i)
    case 0
    with Cons.prems show ?thesis by (simp del: trace.simps add: trace_hd)
  next
    case (Suc i')
    with Cons.prems obtain j' where j: "j = Suc j'" "i' \<le> j'" by (cases j) auto
    show ?thesis
    proof (cases "step g e")
      case (Inl err)
      with Cons.prems j show ?thesis by simp
    next
      case (Inr g1)
      with Cons.prems j have "j' < length (trace g1 es)" by simp
      from Cons.IH [OF this j(2)] Inr Suc j show ?thesis by simp
    qed
  qed
qed

text \<open>
  C8. Let \<open>tr\<close> be the states that the component passes through from its mounting. In
  each of them the score is a non-negative multiple of 10, and the high score of every
  state from there on is not below it. The effect on \<open>[score, highScore]\<close> is what
  keeps it so: on a score above the high score it sets the high score to the score and
  stores it. The stored value is the one a restart of the component loads.
\<close>

theorem score_multiple_highScore_bound:
  assumes "tr = trace (App stored rnd) evs" and "j < length tr" and "i \<le> j"
  shows "0 \<le> score (tr ! i) \<and> 10 dvd score (tr ! i) \<and> score (tr ! i) \<le> highScore (tr ! j) \<and>
    (\<forall>g. highScore g < score g \<longrightarrow>
       highScore (updateHighScore g) = score g \<and>
       localStorage (updateHighScore g) = Some (score g)) \<and>
    highScore (App (localStorage (tr ! j)) rnd') = highScore (tr ! j)"
proof -
  from assms have i: "tr ! i \<in> set (trace (App stored rnd) evs)"
    and j: "tr ! j \<in> set (trace (App stored rnd) evs)" by simp_all
  from i have inv: "scoreInv (tr ! i)" by (rule reachable_scoreInv)
  from assms have "tr ! j \<in> set (trace (tr ! i) (drop i evs))"
    by (simp add: trace_later)
  with inv have "highScore (tr ! i) \<le> highScore (tr ! j)" by (rule trace_highScore_mono)
  with inv have "0 \<le> score (tr ! i)" "10 dvd score (tr ! i)" "score (tr ! i) \<le> highScore (tr ! j)"
    by (simp_all add: scoreInv_def)
  moreover have "\<forall>g. highScore g < score g \<longrightarrow>
       highScore (updateHighScore g) = score g \<and>
       localStorage (updateHighScore g) = Some (score g)"
    by (simp add: updateHighScore_def)
  moreover note reachable_restart [OF j, of rnd']
  ultimately show ?thesis by blast
qed

theorem score_multiple_highScore_bound_witness:
  "trace (App None scriptedRandom) [ClickStart MEDIUM, Tick, Tick] =
     [App None scriptedRandom,
      (playing [(0, 0), (0, - 1), (0, - 2)] (0, 1) (0, 1) scriptedRandom)\<lparr>drawn := 2\<rparr>,
      (playing [(0, 1), (0, 0), (0, - 1), (0, - 2)] (6, 6) (0, 1) scriptedRandom)
         \<lparr>score := 10, highScore := 10, localStorage := Some 10, drawn := 4\<rparr>,
      (playing [(0, 2), (0, 1), (0, 0), (0, - 1)] (6, 6) (0, 1) scriptedRandom)
         \<lparr>score := 10, highScore := 10, localStorage := Some 10, drawn := 4\<rparr>] \<and>
   score ((playing [(0, 1), (0, 0), (0, - 1), (0, - 2)] (6, 6) (0, 1) scriptedRandom)
         \<lparr>score := 10, highScore := 10, localStorage := Some 10, drawn := 4\<rparr>) = 10 \<and>
   (0::int) \<le> 10 \<and> (10::int) dvd 10 \<and>
   10 \<le> highScore ((playing [(0, 2), (0, 1), (0, 0), (0, - 1)] (6, 6) (0, 1) scriptedRandom)
         \<lparr>score := 10, highScore := 10, localStorage := Some 10, drawn := 4\<rparr>) \<and>
   highScore ((playing [(0, 1), (0, 0), (0, - 1), (0, - 2)] (6, 6) (0, 1) scriptedRandom)
         \<lparr>score := 10, drawn := 4\<rparr>) < 10 \<and>
   highScore (updateHighScore ((playing [(0, 1), (0, 0), (0, - 1), (0, - 2)] (6, 6) (0, 1) scriptedRandom)
         \<lparr>score := 10, drawn := 4\<rparr>)) = 10 \<and>
   localStorage (updateHighScore ((playing [(0, 1), (0, 0), (0, - 1), (0, - 2)] (6, 6) (0, 1) scriptedRandom)
         \<lparr>score := 10, drawn := 4\<rparr>)) = Some 10 \<and>
   highScore (App (Some 10) (\<lambda>_. 1 / 2)) = 10"
proof -
  let ?s2 = "(playing [(0, 1), (0, 0), (0, - 1), (0, - 2)] (6, 6) (0, 1) scriptedRandom)
         \<lparr>score := 10, highScore := 10, localStorage := Some 10, drawn := 4\<rparr>"
  let ?s3 = "(playing [(0, 2), (0, 1), (0, 0), (0, - 1)] (6, 6) (0, 1) scriptedRandom)
         \<lparr>score := 10, highScore := 10, localStorage := Some 10, drawn := 4\<rparr>"
  let ?b = "(playing [(0, 1), (0, 0), (0, - 1), (0, - 2)] (6, 6) (0, 1) scriptedRandom)
         \<lparr>score := 10, drawn := 4\<rparr>"
  let ?tr = "[App None scriptedRandom,
      (playing [(0, 0), (0, - 1), (0, - 2)] (0, 1) (0, 1) scriptedRandom)\<lparr>drawn := 2\<rparr>, ?s2, ?s3]"
  have tr: "?tr = trace (App None scriptedRandom) [ClickStart MEDIUM, Tick, Tick]"
    by (simp only: scripted_trace)
  have len: "3 < length ?tr" and le: "(2::nat) \<le> 3" by simp_all
  have nth: "?tr ! 2 = ?s2" "?tr ! 3 = ?s3" by simp_all
  have f: "score ?s2 = 10" "localStorage ?s3 = Some 10" "highScore ?b < score ?b" "score ?b = 10"
    by (simp_all add: playing_def)
  from score_multiple_highScore_bound [OF tr len le, of "\<lambda>_. 1 / 2"]
  have "0 \<le> score ?s2 \<and> 10 dvd score ?s2 \<and> score ?s2 \<le> highScore ?s3 \<and>
    (highScore ?b < score ?b \<longrightarrow> highScore (updateHighScore ?b) = score ?b \<and>
       localStorage (updateHighScore ?b) = Some (score ?b)) \<and>
    highScore (App (localStorage ?s3) (\<lambda>_. 1 / 2)) = highScore ?s3"
    unfolding nth by blast
  with f tr [symmetric] show ?thesis by (simp add: playing_def)
qed

section \<open>Directions\<close>

lemma noReversal_Cons:
  "noReversal (d # ds) \<longleftrightarrow> (ds = [] \<or> hd ds \<noteq> (- fst d, - snd d)) \<and> noReversal ds"
  by (cases ds) auto

lemma noReversal_snoc:
  "noReversal (ds @ [d]) \<longleftrightarrow> noReversal ds \<and> (ds = [] \<or> d \<noteq> (- fst (last ds), - snd (last ds)))"
  by (induction ds rule: noReversal.induct) auto

lemma isDirection_not_own_reversal: "isDirection d \<Longrightarrow> d \<noteq> (- fst d, - snd d)"
  by (auto simp add: isDirection_def)

text \<open>
  What the key handler does while PLAYING: nothing, a toggle of the view, or the
  enqueueing of a direction that is not the reversal of the last queued one (of the one
  in effect, when the queue is empty).
\<close>

lemma handleKeyDown_cases:
  obtains (ignored) "handleKeyDown eKey g = g"
  | (toggle) v where "handleKeyDown eKey g = g\<lparr>viewMode := v\<rparr>"
  | (enqueue) nd where "isDirection nd"
      "nd \<noteq> (- fst (last (directionRef g # moveQueue g)), - snd (last (directionRef g # moveQueue g)))"
      "handleKeyDown eKey g = g\<lparr>moveQueue := moveQueue g @ [nd]\<rparr>"
proof (cases "gameState g = PLAYING")
  case False
  then have "handleKeyDown eKey g = g" by (simp add: handleKeyDown_def)
  then show ?thesis by (rule ignored)
next
  case True
  show ?thesis
  proof (cases "toLowerCase eKey = '' ''")
    case sp: True
    with True have "handleKeyDown eKey g =
      g\<lparr>viewMode := (if viewMode g = THIRD_PERSON then FIRST_PERSON else THIRD_PERSON)\<rparr>"
      by (simp add: handleKeyDown_def Let_def)
    then show ?thesis by (rule toggle)
  next
    case nsp: False
    define key where "key = toLowerCase eKey"
    define newDir where "newDir =
      (if key = ''d'' \<or> key = ''arrowright'' then Some (1, 0)
       else if key = ''a'' \<or> key = ''arrowleft'' then Some (- 1, 0)
       else if key = ''s'' \<or> key = ''arrowdown'' then Some (0, 1)
       else if key = ''w'' \<or> key = ''arrowup'' then Some (0, - 1 :: int)
       else (None :: Direction option))"
    define cur where "cur = last (directionRef g # moveQueue g)"
    have cur: "(if length (moveQueue g) > 0 then last (moveQueue g) else directionRef g) = cur"
      by (simp add: cur_def)
    have h: "handleKeyDown eKey g =
      (case newDir of None \<Rightarrow> g
       | Some nd \<Rightarrow> if fst cur \<noteq> - fst nd \<or> snd cur \<noteq> - snd nd
                    then g\<lparr>moveQueue := moveQueue g @ [nd]\<rparr> else g)"
      using True nsp unfolding handleKeyDown_def Let_def cur newDir_def key_def
      by simp
    show ?thesis
    proof (cases newDir)
      case None
      with h have "handleKeyDown eKey g = g" by simp
      then show ?thesis by (rule ignored)
    next
      case (Some nd)
      then have d: "isDirection nd"
        by (auto simp add: newDir_def isDirection_def split: if_splits)
      show ?thesis
      proof (cases "fst cur \<noteq> - fst nd \<or> snd cur \<noteq> - snd nd")
        case False
        with h Some have "handleKeyDown eKey g = g" by simp
        then show ?thesis by (rule ignored)
      next
        case True
        with h Some have "handleKeyDown eKey g = g\<lparr>moveQueue := moveQueue g @ [nd]\<rparr>" by simp
        moreover from True have "nd \<noteq> (- fst cur, - snd cur)" by (auto simp add: prod_eq_iff)
        ultimately show ?thesis using d unfolding cur_def by (intro enqueue [of nd])
      qed
    qed
  qed
qed

lemma handleKeyDown_queueInv:
  assumes "queueInv g"
  shows "queueInv (handleKeyDown eKey g)"
proof (cases eKey g rule: handleKeyDown_cases)
  case ignored
  with assms show ?thesis by simp
next
  case (toggle v)
  with assms show ?thesis by (simp add: queueInv_def)
next
  case (enqueue nd)
  have "noReversal ((directionRef g # moveQueue g) @ [nd])"
    unfolding noReversal_snoc using assms enqueue(2) by (simp add: queueInv_def)
  with assms enqueue(1,3) show ?thesis by (simp add: queueInv_def)
qed

lemma nextMove_queueInv:
  assumes "queueInv g"
  shows "queueInv (nextMove g) \<and>
    directionRef (nextMove g) \<noteq> (- fst (directionRef g), - snd (directionRef g))"
proof (cases "moveQueue g")
  case Nil
  then have "nextMove g = g" by (simp add: nextMove_def)
  moreover from assms have "isDirection (directionRef g)" by (simp add: queueInv_def)
  ultimately show ?thesis using assms isDirection_not_own_reversal by simp
next
  case (Cons d rest)
  then have "directionRef (nextMove g) = d" "moveQueue (nextMove g) = rest"
    by (simp_all add: nextMove_def)
  with assms Cons show ?thesis by (simp add: queueInv_def)
qed

lemma moveSnake_queue:
  assumes "moveSnake g = Inr g'"
  shows "directionRef g' = directionRef (nextMove g) \<and> moveQueue g' = moveQueue (nextMove g)"
  using assms by (cases rule: moveSnake_cases) simp_all

lemma step_queueInv:
  assumes "queueInv g" "step g e = Inr g'"
  shows "queueInv g'"
proof (cases e)
  case (KeyDown eKey)
  with assms show ?thesis by (auto intro: handleKeyDown_queueInv)
next
  case Tick
  show ?thesis
  proof (cases "gameState g = PLAYING")
    case True
    from moveSnake_of_step [OF True] assms(2) Tick obtain g1 where
      g1: "moveSnake g = Inr g1" "g' = updateHighScore g1" by blast
    from moveSnake_queue [OF g1(1)] nextMove_queueInv [OF assms(1)] g1(2)
    show ?thesis by (simp add: queueInv_def updateHighScore_fields)
  next
    case False
    with assms Tick show ?thesis by simp
  qed
next
  case (ClickStart s)
  show ?thesis
  proof (cases "gameState g = MENU")
    case True
    with assms(2) ClickStart obtain g1 where
      g1: "startGame (SPEEDS s) g = Inr g1" "g' = updateHighScore g1"
      by (auto split: sum.splits)
    from g1(1) have "directionRef g1 = (0, 1)" "moveQueue g1 = []"
      by (auto elim!: startGame_cases)
    with g1(2) show ?thesis
      by (simp add: queueInv_def updateHighScore_fields isDirection_def)
  next
    case False
    with assms ClickStart show ?thesis by simp
  qed
next
  case ClickMainMenu
  with assms show ?thesis by (auto simp add: queueInv_def split: if_splits)
qed

lemma App_queueInv: "queueInv (App stored rnd)"
  by (simp add: App_def queueInv_def updateHighScore_fields loadHighScore_def initialState_def
      isDirection_def split: option.splits)

lemma reachable_queueInv: "g \<in> set (trace (App stored rnd) evs) \<Longrightarrow> queueInv g"
  by (rule trace_invariant [where P = queueInv, OF App_queueInv step_queueInv])

lemma inEffect_noReversal:
  assumes "queueInv g" "list_all isKeyOrTick evs"
  shows "noReversal (directionRef g # inEffect g evs)"
  using assms
proof (induction evs arbitrary: g)
  case Nil
  then show ?case by simp
next
  case (Cons e es)
  from Cons.prems(2) have es: "list_all isKeyOrTick es" by simp
  show ?case
  proof (cases "step g e")
    case (Inl err)
    then have "inEffect g (e # es) =
      (if e = Tick \<and> gameState g = PLAYING then [directionRef (nextMove g)] else [])" by simp
    with nextMove_queueInv [OF Cons.prems(1)] show ?thesis by simp
  next
    case (Inr g1)
    from Cons.prems(1) Inr have q1: "queueInv g1" by (rule step_queueInv)
    note IH = Cons.IH [OF q1 es]
    show ?thesis
    proof (cases "e = Tick \<and> gameState g = PLAYING")
      case True
      with moveSnake_of_step [of g g1] Inr obtain g0 where
        g0: "moveSnake g = Inr g0" "g1 = updateHighScore g0" by blast
      from moveSnake_queue [OF g0(1)] g0(2)
      have d: "directionRef g1 = directionRef (nextMove g)" by (simp add: updateHighScore_fields)
      from True Inr have "inEffect g (e # es) = directionRef g1 # inEffect g1 es"
        by (simp add: d)
      with IH nextMove_queueInv [OF Cons.prems(1)] d show ?thesis by simp
    next
      case False
      have "directionRef g1 = directionRef g"
      proof (cases e)
        case (KeyDown eKey)
        with Inr show ?thesis by (auto simp add: handleKeyDown_fields)
      next
        case Tick
        with False Inr show ?thesis by simp
      next
        case (ClickStart s)
        with Cons.prems(2) show ?thesis by simp
      next
        case ClickMainMenu
        with Cons.prems(2) show ?thesis by simp
      qed
      moreover from False Inr have "inEffect g (e # es) = inEffect g1 es" by auto
      ultimately show ?thesis using IH by simp
    qed
  qed
qed

text \<open>
  C2. From any state that the component has reached, over any further sequence of key
  presses and ticks: in the list of the direction in effect in that state followed by
  the directions in effect at the ticks that run, no entry is the component-wise
  negation of the entry before it.
\<close>

theorem no_reversal_between_ticks:
  assumes "g \<in> set (trace (App stored rnd) evs0)" and "list_all isKeyOrTick evs"
  shows "noReversal (directionRef g # inEffect g evs)"
  using reachable_queueInv [OF assms(1)] assms(2) by (rule inEffect_noReversal)

lemma scripted_inEffect:
  "inEffect ((playing [(0, 0), (0, - 1), (0, - 2)] (0, 1) (0, 1) scriptedRandom)\<lparr>drawn := 2\<rparr>)
     [KeyDown ''d'', KeyDown ''a'', Tick, KeyDown ''ArrowUp'', Tick] = [(1, 0), (0, - 1)]"
  by (simp add: handleKeyDown_def toLowerCase_def toLowerCaseChar_def moveSnake_def
      nextMove_def addDir_def wallCollision_def BOUNDARY_def GRID_SIZE_def Let_def
      updateHighScore_def playing_def)

text \<open>The second key, the reversal of the queued \<open>(1, 0)\<close>, is not enqueued.\<close>

lemma scripted_rejected_key:
  "moveQueue (handleKeyDown ''a'' (handleKeyDown ''d''
     ((playing [(0, 0), (0, - 1), (0, - 2)] (0, 1) (0, 1) scriptedRandom)\<lparr>drawn := 2\<rparr>))) = [(1, 0)]"
  by (simp add: handleKeyDown_def toLowerCase_def toLowerCaseChar_def Let_def playing_def)

text \<open>
  The scenario of the snake of five heading \<open>(0, 1)\<close>: the key for \<open>(0, -1)\<close> is
  rejected, and the next tick runs with \<open>(0, 1)\<close>.
\<close>

lemma reverse_key_rejected_example:
  "handleKeyDown ''w'' (playing [(0, 0), (0, - 1), (0, - 2), (0, - 3), (0, - 4)] (5, 5) (0, 1) rnd) =
     playing [(0, 0), (0, - 1), (0, - 2), (0, - 3), (0, - 4)] (5, 5) (0, 1) rnd"
  "inEffect (playing [(0, 0), (0, - 1), (0, - 2), (0, - 3), (0, - 4)] (5, 5) (0, 1) rnd)
     [KeyDown ''w'', Tick] = [(0, 1)]"
  by (simp_all add: handleKeyDown_def toLowerCase_def toLowerCaseChar_def moveSnake_def
      nextMove_def addDir_def wallCollision_def BOUNDARY_def GRID_SIZE_def Let_def
      updateHighScore_def playing_def)

theorem no_reversal_between_ticks_witness:
  "(playing [(0, 0), (0, - 1), (0, - 2)] (0, 1) (0, 1) scriptedRandom)\<lparr>drawn := 2\<rparr>
     \<in> set (trace (App None scriptedRandom) [ClickStart MEDIUM, Tick, Tick]) \<and>
   list_all isKeyOrTick [KeyDown ''d'', KeyDown ''a'', Tick, KeyDown ''ArrowUp'', Tick] \<and>
   inEffect ((playing [(0, 0), (0, - 1), (0, - 2)] (0, 1) (0, 1) scriptedRandom)\<lparr>drawn := 2\<rparr>)
     [KeyDown ''d'', KeyDown ''a'', Tick, KeyDown ''ArrowUp'', Tick] = [(1, 0), (0, - 1)] \<and>
   noReversal [(0, 1), (1, 0), (0, - 1)]"
proof -
  let ?g = "(playing [(0, 0), (0, - 1), (0, - 2)] (0, 1) (0, 1) scriptedRandom)\<lparr>drawn := 2\<rparr>"
  let ?evs = "[KeyDown ''d'', KeyDown ''a'', Tick, KeyDown ''ArrowUp'', Tick]"
  have r: "?g \<in> set (trace (App None scriptedRandom) [ClickStart MEDIUM, Tick, Tick])"
    unfolding scripted_trace by simp
  have k: "list_all isKeyOrTick ?evs" by simp
  have d: "directionRef ?g = (0, 1)" by (simp add: playing_def)
  from no_reversal_between_ticks [OF r k]
  have "noReversal [(0, 1), (1, 0), (0, - 1)]"
    unfolding scripted_inEffect d .
  with r k scripted_inEffect show ?thesis by blast
qed

end
